theory Spec2Isabelle
  imports Main
begin

section \<open>Backend calls, errors and the drawing context\<close>

text \<open>
  The class \<open>GFX\<close> of \<open>adafruit_gfx.py\<close> draws by calling callables handed to its
  constructor. A callable of the backend is a value of an arbitrary type \<open>'f\<close>; calling it
  is recorded as one \<open>Call\<close> with the positional integer arguments and the forwarded
  \<open>*args, **kwargs\<close>, which are a value of an arbitrary type \<open>'e\<close>. A method returns the
  list of backend calls it made, in order.
\<close>

datatype error = AttributeError string | TypeError | ZeroDivisionError

datatype ('f, 'e) call = Call (callee: 'f) (coords: "int list") (extra: 'e)

text \<open>
  What \<open>self.hline\<close> and \<open>self.vline\<close> are bound to: the callable supplied by the
  backend, or the bound method \<open>self._slow_hline\<close> (\<open>self._slow_vline\<close>).
\<close>

datatype 'f binding = Backend 'f | Fallback

record 'f gfx =
  width :: int
  height :: int
  pixel :: 'f
  hline :: "'f binding"
  vline :: "'f binding"
  full_rect :: 'f

text \<open>The names defined in the body of the class, in source order.\<close>

definition class_dict :: "string list" where
  "class_dict = [''__init__'', ''_slow_hline'', ''_slow_vline'', ''rect'', ''_fill_rect'',
     ''line'', ''circle'', ''fill_circle'', ''triangle'', ''fill_triangle'']"

text \<open>The instance attributes assigned before \<open>full_rect\<close> is looked at.\<close>

definition instance_dict :: "string list" where
  "instance_dict = [''width'', ''height'', ''_pixel'', ''hline'', ''vline'']"

text \<open>
  \<open>__init__\<close>. With \<open>full_rect=None\<close> the constructor evaluates \<open>self._full_rect()\<close>:
  the attribute is looked up on the instance and then on the class, and a missing name
  raises \<open>AttributeError\<close>. Every method of the class has required positional parameters,
  so a call without arguments of a name that were found would raise \<open>TypeError\<close>.
\<close>

definition init ::
  "int \<Rightarrow> int \<Rightarrow> 'f \<Rightarrow> 'f option \<Rightarrow> 'f option \<Rightarrow> 'f option \<Rightarrow> error + 'f gfx" where
  "init w h p hl vl fr =
     (let hline' = (case hl of None \<Rightarrow> Fallback | Some f \<Rightarrow> Backend f);
          vline' = (case vl of None \<Rightarrow> Fallback | Some f \<Rightarrow> Backend f)
      in case fr of
           None \<Rightarrow>
             (if ''_full_rect'' \<in> set (instance_dict @ class_dict) then Inl TypeError
              else Inl (AttributeError ''_full_rect''))
         | Some f \<Rightarrow>
             Inr \<lparr>width = w, height = h, pixel = p, hline = hline', vline = vline',
                  full_rect = f\<rparr>)"

section \<open>Span fallbacks\<close>

text \<open>\<open>_slow_hline\<close> and \<open>_slow_vline\<close>; \<open>range(n)\<close> is \<open>[0..n - 1]\<close>, empty for \<open>n \<le> 0\<close>.\<close>

definition slow_hline :: "'f gfx \<Rightarrow> int \<Rightarrow> int \<Rightarrow> int \<Rightarrow> 'e \<Rightarrow> ('f, 'e) call list" where
  "slow_hline self x0 y0 w e =
     (if y0 < 0 \<or> y0 > height self \<or> x0 < - w \<or> x0 > width self then []
      else map (\<lambda>i. Call (pixel self) [x0 + i, y0] e) [0..w - 1])"

definition slow_vline :: "'f gfx \<Rightarrow> int \<Rightarrow> int \<Rightarrow> int \<Rightarrow> 'e \<Rightarrow> ('f, 'e) call list" where
  "slow_vline self x0 y0 h e =
     (if y0 < - h \<or> y0 > height self \<or> x0 < 0 \<or> x0 > width self then []
      else map (\<lambda>i. Call (pixel self) [x0, y0 + i] e) [0..h - 1])"

text \<open>The calls \<open>self.hline(x, y, n, *args, **kwargs)\<close> and \<open>self.vline(...)\<close>.\<close>

definition hline_op :: "'f gfx \<Rightarrow> int \<Rightarrow> int \<Rightarrow> int \<Rightarrow> 'e \<Rightarrow> ('f, 'e) call list" where
  "hline_op self x y n e =
     (case hline self of Backend f \<Rightarrow> [Call f [x, y, n] e] | Fallback \<Rightarrow> slow_hline self x y n e)"

definition vline_op :: "'f gfx \<Rightarrow> int \<Rightarrow> int \<Rightarrow> int \<Rightarrow> 'e \<Rightarrow> ('f, 'e) call list" where
  "vline_op self x y n e =
     (case vline self of Backend f \<Rightarrow> [Call f [x, y, n] e] | Fallback \<Rightarrow> slow_vline self x y n e)"

section \<open>Rectangles\<close>

definition rect :: "'f gfx \<Rightarrow> int \<Rightarrow> int \<Rightarrow> int \<Rightarrow> int \<Rightarrow> 'e \<Rightarrow> ('f, 'e) call list" where
  "rect self x0 y0 w h e =
     (if y0 < - h \<or> y0 > height self \<or> x0 < - w \<or> x0 > width self then []
      else hline_op self x0 y0 w e @ hline_op self x0 (y0 + h - 1) w e
         @ vline_op self x0 y0 h e @ vline_op self (x0 + w - 1) y0 h e)"

text \<open>\<open>_fill_rect\<close>; \<open>range(x0, x0 + w)\<close> is \<open>[x0..x0 + w - 1]\<close>.\<close>

definition fill_rect :: "'f gfx \<Rightarrow> int \<Rightarrow> int \<Rightarrow> int \<Rightarrow> int \<Rightarrow> 'e \<Rightarrow> ('f, 'e) call list" where
  "fill_rect self x0 y0 w h e =
     (if y0 < - h \<or> y0 > height self \<or> x0 < - w \<or> x0 > width self then []
      else concat (map (\<lambda>i. vline_op self i y0 h e) [x0..x0 + w - 1]))"

section \<open>Line\<close>

text \<open>The \<open>while x0 <= x1\<close> loop of \<open>line\<close>; the state is \<open>x0\<close>, \<open>y0\<close> and \<open>err\<close>.\<close>

function line_loop ::
  "'f gfx \<Rightarrow> bool \<Rightarrow> int \<Rightarrow> int \<Rightarrow> int \<Rightarrow> int \<Rightarrow> int \<Rightarrow> int \<Rightarrow> int \<Rightarrow> 'e \<Rightarrow> ('f, 'e) call list" where
  "line_loop self steep x0 y0 x1 dx dy err ystep e =
     (if x0 \<le> x1 then
        (if steep then Call (pixel self) [y0, x0] e else Call (pixel self) [x0, y0] e) #
        (if err - dy < 0
         then line_loop self steep (x0 + 1) (y0 + ystep) x1 dx dy (err - dy + dx) ystep e
         else line_loop self steep (x0 + 1) y0 x1 dx dy (err - dy) ystep e)
      else [])"
  by pat_completeness auto
termination
  by (relation "measure (\<lambda>(self, steep, x0, y0, x1, dx, dy, err, ystep, e). nat (x1 + 1 - x0))")
     auto

declare line_loop.simps [simp del]

text \<open>The straight-line part of \<open>line\<close>: the two conditional swaps.\<close>

definition line_ends :: "int \<Rightarrow> int \<Rightarrow> int \<Rightarrow> int \<Rightarrow> bool \<times> int \<times> int \<times> int \<times> int" where
  "line_ends x0 y0 x1 y1 =
     (let steep = \<bar>y1 - y0\<bar> > \<bar>x1 - x0\<bar>;
          (x0, y0, x1, y1) = (if steep then (y0, x0, y1, x1) else (x0, y0, x1, y1));
          (x0, y0, x1, y1) = (if x0 > x1 then (x1, y1, x0, y0) else (x0, y0, x1, y1))
      in (steep, x0, y0, x1, y1))"

definition line :: "'f gfx \<Rightarrow> int \<Rightarrow> int \<Rightarrow> int \<Rightarrow> int \<Rightarrow> 'e \<Rightarrow> ('f, 'e) call list" where
  "line self x0 y0 x1 y1 e =
     (case line_ends x0 y0 x1 y1 of (steep, x0, y0, x1, y1) \<Rightarrow>
        let dx = x1 - x0;
            dy = \<bar>y1 - y0\<bar>;
            err = dx div 2;
            ystep = (if y0 < y1 then 1 else - 1)
        in line_loop self steep x0 y0 x1 dx dy err ystep e)"

section \<open>Circles\<close>

text \<open>The eight calls at the end of one iteration of the loop of \<open>circle\<close>.\<close>

definition octants :: "'f gfx \<Rightarrow> int \<Rightarrow> int \<Rightarrow> int \<Rightarrow> int \<Rightarrow> 'e \<Rightarrow> ('f, 'e) call list" where
  "octants self x0 y0 x y e =
     [Call (pixel self) [x0 + x, y0 + y] e, Call (pixel self) [x0 - x, y0 + y] e,
      Call (pixel self) [x0 + x, y0 - y] e, Call (pixel self) [x0 - x, y0 - y] e,
      Call (pixel self) [x0 + y, y0 + x] e, Call (pixel self) [x0 - y, y0 + x] e,
      Call (pixel self) [x0 + y, y0 - x] e, Call (pixel self) [x0 - y, y0 - x] e]"

text \<open>
  The \<open>while x < y\<close> loop of \<open>circle\<close>. The branch \<open>f >= 0\<close> updates \<open>y\<close>, \<open>ddF_y\<close> and
  \<open>f\<close> before the common update of \<open>x\<close>, \<open>ddF_x\<close> and \<open>f\<close>.
\<close>

function circle_loop ::
  "'f gfx \<Rightarrow> int \<Rightarrow> int \<Rightarrow> int \<Rightarrow> int \<Rightarrow> int \<Rightarrow> int \<Rightarrow> int \<Rightarrow> 'e \<Rightarrow> ('f, 'e) call list" where
  "circle_loop self x0 y0 f ddF_x ddF_y x y e =
     (if x < y then
        (if f \<ge> 0
         then octants self x0 y0 (x + 1) (y - 1) e @
              circle_loop self x0 y0 (f + (ddF_y + 2) + (ddF_x + 2)) (ddF_x + 2) (ddF_y + 2)
                (x + 1) (y - 1) e
         else octants self x0 y0 (x + 1) y e @
              circle_loop self x0 y0 (f + (ddF_x + 2)) (ddF_x + 2) ddF_y (x + 1) y e)
      else [])"
  by pat_completeness auto
termination
  by (relation "measure (\<lambda>(self, x0, y0, f, ddF_x, ddF_y, x, y, e). nat (y - x))") auto

declare circle_loop.simps [simp del]

definition circle :: "'f gfx \<Rightarrow> int \<Rightarrow> int \<Rightarrow> int \<Rightarrow> 'e \<Rightarrow> ('f, 'e) call list" where
  "circle self x0 y0 radius e =
     [Call (pixel self) [x0, y0 + radius] e, Call (pixel self) [x0, y0 - radius] e,
      Call (pixel self) [x0 + radius, y0] e, Call (pixel self) [x0 - radius, y0] e]
     @ circle_loop self x0 y0 (1 - radius) 1 (- 2 * radius) 0 radius e"

text \<open>The four spans at the end of one iteration of the loop of \<open>fill_circle\<close>.\<close>

definition quadrants :: "'f gfx \<Rightarrow> int \<Rightarrow> int \<Rightarrow> int \<Rightarrow> int \<Rightarrow> 'e \<Rightarrow> ('f, 'e) call list" where
  "quadrants self x0 y0 x y e =
     vline_op self (x0 + x) (y0 - y) (2 * y + 1) e @ vline_op self (x0 + y) (y0 - x) (2 * x + 1) e
     @ vline_op self (x0 - x) (y0 - y) (2 * y + 1) e @ vline_op self (x0 - y) (y0 - x) (2 * x + 1) e"

function fill_circle_loop ::
  "'f gfx \<Rightarrow> int \<Rightarrow> int \<Rightarrow> int \<Rightarrow> int \<Rightarrow> int \<Rightarrow> int \<Rightarrow> int \<Rightarrow> 'e \<Rightarrow> ('f, 'e) call list" where
  "fill_circle_loop self x0 y0 f ddF_x ddF_y x y e =
     (if x < y then
        (if f \<ge> 0
         then quadrants self x0 y0 (x + 1) (y - 1) e @
              fill_circle_loop self x0 y0 (f + (ddF_y + 2) + (ddF_x + 2)) (ddF_x + 2)
                (ddF_y + 2) (x + 1) (y - 1) e
         else quadrants self x0 y0 (x + 1) y e @
              fill_circle_loop self x0 y0 (f + (ddF_x + 2)) (ddF_x + 2) ddF_y (x + 1) y e)
      else [])"
  by pat_completeness auto
termination
  by (relation "measure (\<lambda>(self, x0, y0, f, ddF_x, ddF_y, x, y, e). nat (y - x))") auto

declare fill_circle_loop.simps [simp del]

definition fill_circle :: "'f gfx \<Rightarrow> int \<Rightarrow> int \<Rightarrow> int \<Rightarrow> 'e \<Rightarrow> ('f, 'e) call list" where
  "fill_circle self x0 y0 radius e =
     vline_op self x0 (y0 - radius) (2 * radius + 1) e
     @ fill_circle_loop self x0 y0 (1 - radius) 1 (- 2 * radius) 0 radius e"

section \<open>Triangles\<close>

definition triangle ::
  "'f gfx \<Rightarrow> int \<Rightarrow> int \<Rightarrow> int \<Rightarrow> int \<Rightarrow> int \<Rightarrow> int \<Rightarrow> 'e \<Rightarrow> ('f, 'e) call list" where
  "triangle self x0 y0 x1 y1 x2 y2 e =
     line self x0 y0 x1 y1 e @ line self x1 y1 x2 y2 e @ line self x2 y2 x0 y0 e"

text \<open>Python's \<open>a // b\<close> on integers: floor division, raising on a zero divisor.\<close>

definition floordiv :: "int \<Rightarrow> int \<Rightarrow> error + int" where
  "floordiv a b = (if b = 0 then Inl ZeroDivisionError else Inr (a div b))"

text \<open>
  The end of both loop bodies of \<open>fill_triangle\<close>: \<open>if a > b: a, b = b, a\<close> followed by
  \<open>self.hline(a, y, b-a+1, *args, **kwargs)\<close>.
\<close>

definition span_row :: "'f gfx \<Rightarrow> int \<Rightarrow> int \<Rightarrow> int \<Rightarrow> 'e \<Rightarrow> ('f, 'e) call list" where
  "span_row self a b y e =
     (case (if a > b then (b, a) else (a, b)) of (a, b) \<Rightarrow> hline_op self a y (b - a + 1) e)"

text \<open>
  The loop \<open>for y in range(y0, last+1)\<close>. The argument \<open>i\<close> is the next value of the
  range and \<open>y\<close> the current value of the variable \<open>y\<close>, which the loop assigns at the
  start of each iteration and which keeps its value when the range is exhausted. The
  result is the final value of \<open>y\<close> with the calls made.
\<close>

function tri_upper ::
  "'f gfx \<Rightarrow> int \<Rightarrow> int \<Rightarrow> int \<Rightarrow> int \<Rightarrow> int \<Rightarrow> int \<Rightarrow> int \<Rightarrow> int \<Rightarrow> int \<Rightarrow> int \<Rightarrow> 'e
     \<Rightarrow> error + int \<times> ('f, 'e) call list" where
  "tri_upper self x0 dx01 dy01 dx02 dy02 sa sb i last' y e =
     (if i \<le> last' then
        (case floordiv sa dy01 of
           Inl err \<Rightarrow> Inl err
         | Inr qa \<Rightarrow>
            (case floordiv sb dy02 of
               Inl err \<Rightarrow> Inl err
             | Inr qb \<Rightarrow>
                (case tri_upper self x0 dx01 dy01 dx02 dy02 (sa + dx01) (sb + dx02) (i + 1)
                        last' i e of
                   Inl err \<Rightarrow> Inl err
                 | Inr (y', cs) \<Rightarrow> Inr (y', span_row self (x0 + qa) (x0 + qb) i e @ cs))))
      else Inr (y, []))"
  by pat_completeness auto
termination
  by (relation "measure (\<lambda>(self, x0, dx01, dy01, dx02, dy02, sa, sb, i, last', y, e).
        nat (last' + 1 - i))") auto

declare tri_upper.simps [simp del]

text \<open>The loop \<open>while y <= y2\<close>.\<close>

function tri_lower ::
  "'f gfx \<Rightarrow> int \<Rightarrow> int \<Rightarrow> int \<Rightarrow> int \<Rightarrow> int \<Rightarrow> int \<Rightarrow> int \<Rightarrow> int \<Rightarrow> int \<Rightarrow> int \<Rightarrow> 'e
     \<Rightarrow> error + ('f, 'e) call list" where
  "tri_lower self x0 x1 dx12 dy12 dx02 dy02 sa sb y y2 e =
     (if y \<le> y2 then
        (case floordiv sa dy12 of
           Inl err \<Rightarrow> Inl err
         | Inr qa \<Rightarrow>
            (case floordiv sb dy02 of
               Inl err \<Rightarrow> Inl err
             | Inr qb \<Rightarrow>
                (case tri_lower self x0 x1 dx12 dy12 dx02 dy02 (sa + dx12) (sb + dx02) (y + 1)
                        y2 e of
                   Inl err \<Rightarrow> Inl err
                 | Inr cs \<Rightarrow> Inr (span_row self (x1 + qa) (x0 + qb) y e @ cs))))
      else Inr [])"
  by pat_completeness auto
termination
  by (relation "measure (\<lambda>(self, x0, x1, dx12, dy12, dx02, dy02, sa, sb, y, y2, e).
        nat (y2 + 1 - y))") auto

declare tri_lower.simps [simp del]

text \<open>The three conditional swaps at the start of \<open>fill_triangle\<close>.\<close>

definition sort_vertices ::
  "int \<Rightarrow> int \<Rightarrow> int \<Rightarrow> int \<Rightarrow> int \<Rightarrow> int \<Rightarrow> int \<times> int \<times> int \<times> int \<times> int \<times> int" where
  "sort_vertices x0 y0 x1 y1 x2 y2 =
     (let (x0, y0, x1, y1) = (if y0 > y1 then (x1, y1, x0, y0) else (x0, y0, x1, y1));
          (x1, y1, x2, y2) = (if y1 > y2 then (x2, y2, x1, y1) else (x1, y1, x2, y2));
          (x0, y0, x1, y1) = (if y0 > y1 then (x1, y1, x0, y0) else (x0, y0, x1, y1))
      in (x0, y0, x1, y1, x2, y2))"

text \<open>The branch \<open>if y0 == y2\<close>: all three vertices on one row.\<close>

definition flat_span :: "'f gfx \<Rightarrow> int \<Rightarrow> int \<Rightarrow> int \<Rightarrow> int \<Rightarrow> 'e \<Rightarrow> ('f, 'e) call list" where
  "flat_span self x0 y0 x1 x2 e =
     (let a = x0;
          b = x0;
          (a, b) = (if x1 < a then (x1, b) else if x1 > b then (a, x1) else (a, b));
          (a, b) = (if x2 < a then (x2, b) else if x2 > b then (a, x2) else (a, b))
      in hline_op self a y0 (b - a + 1) e)"

text \<open>
  The rest of \<open>fill_triangle\<close>, after the swaps and the flat case. The variable \<open>y\<close> is
  \<open>0\<close> before the first loop; the second loop starts from the value the first one left.
\<close>

definition scan_triangle ::
  "'f gfx \<Rightarrow> int \<Rightarrow> int \<Rightarrow> int \<Rightarrow> int \<Rightarrow> int \<Rightarrow> int \<Rightarrow> 'e \<Rightarrow> error + ('f, 'e) call list" where
  "scan_triangle self x0 y0 x1 y1 x2 y2 e =
     (let dx01 = x1 - x0;
          dy01 = y1 - y0;
          dx02 = x2 - x0;
          dy02 = y2 - y0;
          dx12 = x2 - x1;
          dy12 = y2 - y1;
          dy01 = (if dy01 = 0 then 1 else dy01);
          dy02 = (if dy02 = 0 then 1 else dy02);
          dy12 = (if dy12 = 0 then 1 else dy12);
          last' = (if y1 = y2 then y1 else y1 - 1)
      in case tri_upper self x0 dx01 dy01 dx02 dy02 0 0 y0 last' 0 e of
           Inl err \<Rightarrow> Inl err
         | Inr (y, cs) \<Rightarrow>
            (case tri_lower self x0 x1 dx12 dy12 dx02 dy02 (dx12 * (y - y1)) (dx02 * (y - y0))
                    y y2 e of
               Inl err \<Rightarrow> Inl err
             | Inr cs' \<Rightarrow> Inr (cs @ cs')))"

definition fill_triangle ::
  "'f gfx \<Rightarrow> int \<Rightarrow> int \<Rightarrow> int \<Rightarrow> int \<Rightarrow> int \<Rightarrow> int \<Rightarrow> 'e \<Rightarrow> error + ('f, 'e) call list" where
  "fill_triangle self x0 y0 x1 y1 x2 y2 e =
     (case sort_vertices x0 y0 x1 y1 x2 y2 of (x0, y0, x1, y1, x2, y2) \<Rightarrow>
        if y0 = y2 then Inr (flat_span self x0 y0 x1 x2 e)
        else scan_triangle self x0 y0 x1 y1 x2 y2 e)"

section \<open>One entry point for every drawing method\<close>

datatype primitive =
    Slow_hline int int int
  | Slow_vline int int int
  | Rect int int int int
  | Fill_rect int int int int
  | Line int int int int
  | Circle int int int
  | Fill_circle int int int
  | Triangle int int int int int int
  | Fill_triangle int int int int int int

fun invoke :: "'f gfx \<Rightarrow> primitive \<Rightarrow> 'e \<Rightarrow> error + ('f, 'e) call list" where
  "invoke self (Slow_hline x y n) e = Inr (slow_hline self x y n e)"
| "invoke self (Slow_vline x y n) e = Inr (slow_vline self x y n e)"
| "invoke self (Rect x y w h) e = Inr (rect self x y w h e)"
| "invoke self (Fill_rect x y w h) e = Inr (fill_rect self x y w h e)"
| "invoke self (Line x0 y0 x1 y1) e = Inr (line self x0 y0 x1 y1 e)"
| "invoke self (Circle x y r) e = Inr (circle self x y r e)"
| "invoke self (Fill_circle x y r) e = Inr (fill_circle self x y r e)"
| "invoke self (Triangle x0 y0 x1 y1 x2 y2) e = Inr (triangle self x0 y0 x1 y1 x2 y2 e)"
| "invoke self (Fill_triangle x0 y0 x1 y1 x2 y2) e = fill_triangle self x0 y0 x1 y1 x2 y2 e"

section \<open>A concrete backend\<close>

datatype backend = Set_pixel | Draw_hspan | Draw_vspan | Draw_rect

definition spans :: "backend gfx" where
  "spans = \<lparr>width = 8, height = 8, pixel = Set_pixel, hline = Backend Draw_hspan,
            vline = Backend Draw_vspan, full_rect = Draw_rect\<rparr>"

definition pixels :: "backend gfx" where
  "pixels = \<lparr>width = 8, height = 8, pixel = Set_pixel, hline = Fallback, vline = Fallback,
             full_rect = Draw_rect\<rparr>"

section \<open>What a span covers\<close>

text \<open>
  The cells a vertical span \<open>(x, y, n)\<close> stands for under the contract of the backend:
  \<open>n\<close> consecutive pixels starting at \<open>(x, y)\<close> and going down, as \<open>_slow_vline\<close> draws
  them when it does not reject.
\<close>

definition vspan_cells :: "int \<Rightarrow> int \<Rightarrow> int \<Rightarrow> (int \<times> int) list" where
  "vspan_cells x y n = map (\<lambda>j. (x, y + j)) [0..n - 1]"

section \<open>Pixel sets and the symmetries of the square\<close>

text \<open>The coordinates of a call with two positional arguments, as \<open>pixel(x, y)\<close> is.\<close>

definition point_of :: "('f, 'e) call \<Rightarrow> (int \<times> int) option" where
  "point_of c = (case coords c of [x, y] \<Rightarrow> Some (x, y) | _ \<Rightarrow> None)"

definition points :: "('f, 'e) call list \<Rightarrow> (int \<times> int) set" where
  "points cs = set (List.map_filter point_of cs)"

text \<open>
  The eight symmetries of the square about the centre \<open>(x0, y0)\<close>: the identity, the
  reflections in the vertical and the horizontal axis, the point reflection, the
  reflections in the two diagonals, and the two quarter turns.
\<close>

definition reflections :: "int \<Rightarrow> int \<Rightarrow> (int \<times> int \<Rightarrow> int \<times> int) list" where
  "reflections x0 y0 =
     [\<lambda>(x, y). (x, y),
      \<lambda>(x, y). (2 * x0 - x, y),
      \<lambda>(x, y). (x, 2 * y0 - y),
      \<lambda>(x, y). (2 * x0 - x, 2 * y0 - y),
      \<lambda>(x, y). (x0 + (y - y0), y0 + (x - x0)),
      \<lambda>(x, y). (x0 - (y - y0), y0 - (x - x0)),
      \<lambda>(x, y). (x0 - (y - y0), y0 + (x - x0)),
      \<lambda>(x, y). (x0 + (y - y0), y0 - (x - x0))]"

text \<open>
  A set of points is stable when it contains, with each point, its mirror images in the
  vertical axis, in the horizontal axis and in the diagonal through the centre.
\<close>

definition stable :: "int \<Rightarrow> int \<Rightarrow> (int \<times> int) set \<Rightarrow> bool" where
  "stable x0 y0 S \<longleftrightarrow>
     (\<forall>x y. (x, y) \<in> S \<longrightarrow>
        (2 * x0 - x, y) \<in> S \<and> (x, 2 * y0 - y) \<in> S \<and> (x0 + (y - y0), y0 + (x - x0)) \<in> S)"

section \<open>Construction\<close>

lemma init_supplied:
  "init w h p hl vl (Some f) =
     Inr \<lparr>width = w, height = h, pixel = p,
          hline = (case hl of None \<Rightarrow> Fallback | Some k \<Rightarrow> Backend k),
          vline = (case vl of None \<Rightarrow> Fallback | Some k \<Rightarrow> Backend k),
          full_rect = f\<rparr>"
  by (simp add: init_def)

text \<open>
  Claim C2: constructing the context raises no error for any combination of constructor
  arguments, in particular when the optional operations are omitted. The code does not do
  that: whenever \<open>full_rect\<close> is omitted, whatever the other arguments are, \<open>__init__\<close>
  evaluates \<open>self._full_rect()\<close>, a name the class does not define (the method is
  \<open>_fill_rect\<close>), and the constructor raises \<open>AttributeError\<close>.
\<close>

theorem init_default_full_rect:
  "init w h p hl vl None = Inl (AttributeError ''_full_rect'')"
  by (simp add: init_def instance_dict_def class_dict_def)

section \<open>Filled triangle: the rows of the two loops\<close>

text \<open>
  Claim C1: for sorted vertices with \<open>y0 \<noteq> y2\<close>, \<open>fill_triangle\<close> emits exactly one span
  per row from \<open>y0\<close> through \<open>y2\<close>, the second loop continuing from \<open>last + 1\<close>. The code
  does not do that: after \<open>for y in range(y0, last+1)\<close> the variable \<open>y\<close> is \<open>last\<close>, so
  the second loop starts on the row the first one ended on. For the vertices \<open>(0,0)\<close>,
  \<open>(0,2)\<close>, \<open>(2,4)\<close> row \<open>1\<close> gets two spans, the second one starting left of the triangle.
\<close>

theorem fill_triangle_repeats_row:
  "fill_triangle spans 0 0 0 2 2 4 () =
     Inr [Call Draw_hspan [0, 0, 1] (), Call Draw_hspan [0, 1, 1] (),
          Call Draw_hspan [- 1, 1, 2] (), Call Draw_hspan [0, 2, 2] (),
          Call Draw_hspan [1, 3, 1] (), Call Draw_hspan [2, 4, 1] ()]"
  by (simp add: fill_triangle_def sort_vertices_def scan_triangle_def tri_upper.simps
      tri_lower.simps floordiv_def span_row_def hline_op_def spans_def)

text \<open>
  When the first loop is empty (\<open>y0 = y1\<close>) the variable \<open>y\<close> still has its initial
  value \<open>0\<close>: for the vertices \<open>(0,5)\<close>, \<open>(4,5)\<close>, \<open>(2,8)\<close> the second loop draws the
  rows \<open>0\<close> to \<open>8\<close>, five of them above the triangle.
\<close>

lemma fill_triangle_flat_top:
  "fill_triangle spans 0 5 4 5 2 8 () =
     Inr [Call Draw_hspan [- 4, 0, 12] (), Call Draw_hspan [- 3, 1, 10] (),
          Call Draw_hspan [- 2, 2, 9] (), Call Draw_hspan [- 2, 3, 8] (),
          Call Draw_hspan [- 1, 4, 6] (), Call Draw_hspan [0, 5, 5] (),
          Call Draw_hspan [0, 6, 4] (), Call Draw_hspan [1, 7, 2] (),
          Call Draw_hspan [2, 8, 1] ()]"
  by (simp add: fill_triangle_def sort_vertices_def scan_triangle_def tri_upper.simps
      tri_lower.simps floordiv_def span_row_def hline_op_def spans_def)

section \<open>Circle outline\<close>

text \<open>
  Claim C10: for every centre and every radius \<open>r < 0\<close>, \<open>circle\<close> makes exactly four
  pixel calls, at \<open>(x0, y0 + r)\<close>, \<open>(x0, y0 - r)\<close>, \<open>(x0 + r, y0)\<close> and \<open>(x0 - r, y0)\<close>, and
  the loop runs zero times, its guard \<open>x < y\<close> being \<open>0 < r\<close>.
\<close>

theorem circle_negative_radius:
  "radius < 0 \<Longrightarrow>
     circle_loop self x0 y0 (1 - radius) 1 (- 2 * radius) 0 radius e = [] \<and>
     circle self x0 y0 radius e =
       [Call (pixel self) [x0, y0 + radius] e, Call (pixel self) [x0, y0 - radius] e,
        Call (pixel self) [x0 + radius, y0] e, Call (pixel self) [x0 - radius, y0] e]"
  by (simp add: circle_def circle_loop.simps)

theorem circle_negative_radius_witness:
  "(- 2 :: int) < 0 \<and>
     circle pixels 5 5 (- 2) () =
       [Call Set_pixel [5, 3] (), Call Set_pixel [5, 7] (),
        Call Set_pixel [3, 5] (), Call Set_pixel [7, 5] ()]"
  using circle_negative_radius [of "- 2" pixels 5 5 "()"] by (simp add: pixels_def)

section \<open>The fallback spans\<close>

text \<open>
  Claim C3: the fallback horizontal span does nothing when \<open>y < 0\<close> or \<open>y > height\<close> or
  \<open>x < -length\<close> or \<open>x > width\<close> (strict bounds: one past the edge is accepted), and
  otherwise calls \<open>pixel_op(x + i, y, *extra)\<close> once for each \<open>i\<close> from \<open>0\<close> to
  \<open>length - 1\<close>, ascending; the fallback vertical span is the same with the axes
  exchanged. The number of calls of a span that is not rejected is \<open>nat n\<close>: none for
  \<open>n \<le> 0\<close>.
\<close>

theorem slow_span_calls:
  "((y < 0 \<or> y > height self \<or> x < - n \<or> x > width self) \<longrightarrow> slow_hline self x y n e = []) \<and>
   (\<not> (y < 0 \<or> y > height self \<or> x < - n \<or> x > width self) \<longrightarrow>
      length (slow_hline self x y n e) = nat n \<and>
      (\<forall>i < nat n. slow_hline self x y n e ! i = Call (pixel self) [x + int i, y] e)) \<and>
   ((x < 0 \<or> x > width self \<or> y < - n \<or> y > height self) \<longrightarrow> slow_vline self x y n e = []) \<and>
   (\<not> (x < 0 \<or> x > width self \<or> y < - n \<or> y > height self) \<longrightarrow>
      length (slow_vline self x y n e) = nat n \<and>
      (\<forall>i < nat n. slow_vline self x y n e ! i = Call (pixel self) [x, y + int i] e))"
  by (auto simp add: slow_hline_def slow_vline_def)

theorem slow_span_calls_witness:
  "slow_hline pixels 9 0 2 () = [] \<and>
   slow_hline pixels 8 8 2 () = [Call Set_pixel [8, 8] (), Call Set_pixel [9, 8] ()] \<and>
   slow_vline pixels 0 9 2 () = [] \<and>
   slow_vline pixels 8 8 2 () = [Call Set_pixel [8, 8] (), Call Set_pixel [8, 9] ()]"
proof -
  have w: "width pixels = 8" "height pixels = 8" "pixel pixels = Set_pixel"
    by (simp_all add: pixels_def)
  have two: "xs = [xs ! 0, xs ! 1]" if "length xs = 2" for xs :: "(backend, unit) call list"
    using that by (cases xs; cases "tl xs") auto
  note a = slow_span_calls [of 0 pixels 9 2 "()"]
  note b = slow_span_calls [of 8 pixels 8 2 "()"]
  note c = slow_span_calls [of 9 pixels 0 2 "()"]
  have 1: "slow_hline pixels 9 0 2 () = []" using a by (simp add: w)
  have 2: "slow_vline pixels 0 9 2 () = []" using c by (simp add: w)
  have 3: "length (slow_hline pixels 8 8 2 ()) = 2"
    "slow_hline pixels 8 8 2 () ! 0 = Call Set_pixel [8, 8] ()"
    "slow_hline pixels 8 8 2 () ! 1 = Call Set_pixel [9, 8] ()"
    using b by (simp_all add: w)
  have 4: "length (slow_vline pixels 8 8 2 ()) = 2"
    "slow_vline pixels 8 8 2 () ! 0 = Call Set_pixel [8, 8] ()"
    "slow_vline pixels 8 8 2 () ! 1 = Call Set_pixel [8, 9] ()"
    using b by (simp_all add: w)
  show ?thesis using 1 2 two [OF 3(1)] two [OF 4(1)] 3 4 by simp
qed


section \<open>Filled rectangle\<close>

lemma vspan_cells_set: "set (vspan_cells i y h) = {i} \<times> {y..y + h - 1}"
proof (intro set_eqI iffI)
  fix p assume "p \<in> {i} \<times> {y..y + h - 1}"
  then have "snd p - y \<in> {0..h - 1}" "p = (i, y + (snd p - y))" by auto
  then have "p \<in> (\<lambda>j. (i, y + j)) ` {0..h - 1}" by (rule_tac image_eqI)
  then show "p \<in> set (vspan_cells i y h)" by (simp add: vspan_cells_def)
qed (auto simp add: vspan_cells_def)

lemma concat_vspan_cells_distinct:
  "distinct (concat (map (\<lambda>i. vspan_cells i y h) [a..b]))"
proof (cases "h \<le> 0")
  case True
  then have "concat (map (\<lambda>i. vspan_cells i y h) [a..b]) = []"
    by (simp add: vspan_cells_def)
  then show ?thesis by (simp only: distinct.simps)
next
  case False
  then have mem: "(i, y) \<in> set (vspan_cells i y h)" for i
    by (simp add: vspan_cells_set)
  show ?thesis
  proof (rule distinct_concat)
    have "i = j" if "vspan_cells i y h = vspan_cells j y h" for i j
      using mem [of i] that by (simp add: vspan_cells_set)
    then show "distinct (map (\<lambda>i. vspan_cells i y h) [a..b])"
      by (auto simp add: distinct_map inj_on_def)
  next
    fix ys assume "ys \<in> set (map (\<lambda>i. vspan_cells i y h) [a..b])"
    then show "distinct ys"
      by (auto simp add: vspan_cells_def distinct_map inj_on_def)
  next
    fix ys zs
    assume "ys \<in> set (map (\<lambda>i. vspan_cells i y h) [a..b])"
      "zs \<in> set (map (\<lambda>i. vspan_cells i y h) [a..b])" "ys \<noteq> zs"
    then show "set ys \<inter> set zs = {}"
      by (auto simp add: vspan_cells_set)
  qed
qed

lemma concat_vspan_cells_set:
  "set (concat (map (\<lambda>i. vspan_cells i y h) [a..b])) = {a..b} \<times> {y..y + h - 1}"
  by (auto simp add: vspan_cells_set)

lemma concat_vspan_cells_length:
  "length (concat (map (\<lambda>i. vspan_cells i y h) [a..a + w - 1])) = nat w * nat h"
  by (simp add: length_concat vspan_cells_def comp_def sum_list_triv)


text \<open>
  Claim C6: when its bounds test does not reject, \<open>fill_rect\<close> issues one vertical span
  per column from \<open>x0\<close> to \<open>x0 + width - 1\<close>, each of length \<open>height\<close>: \<open>width\<close> calls,
  whose cells are pairwise different and are the \<open>width * height\<close> cells of the
  rectangle; when the test rejects, it issues no call. Counts are natural numbers: an
  empty range for \<open>width \<le> 0\<close>, an empty span for \<open>height \<le> 0\<close>.
\<close>

theorem fill_rect_columns:
  "((y0 < - h \<or> y0 > height self \<or> x0 < - w \<or> x0 > width self) \<longrightarrow>
      fill_rect self x0 y0 w h e = []) \<and>
   (\<not> (y0 < - h \<or> y0 > height self \<or> x0 < - w \<or> x0 > width self) \<longrightarrow>
      fill_rect self x0 y0 w h e = concat (map (\<lambda>i. vline_op self i y0 h e) [x0..x0 + w - 1]) \<and>
      (\<forall>f. vline self = Backend f \<longrightarrow>
         length (fill_rect self x0 y0 w h e) = nat w \<and>
         (\<forall>k < nat w. fill_rect self x0 y0 w h e ! k = Call f [x0 + int k, y0, h] e)) \<and>
      distinct (concat (map (\<lambda>i. vspan_cells i y0 h) [x0..x0 + w - 1])) \<and>
      set (concat (map (\<lambda>i. vspan_cells i y0 h) [x0..x0 + w - 1]))
        = {x0..x0 + w - 1} \<times> {y0..y0 + h - 1} \<and>
      length (concat (map (\<lambda>i. vspan_cells i y0 h) [x0..x0 + w - 1])) = nat w * nat h)"
proof -
  have "fill_rect self x0 y0 w h e = map (\<lambda>i. Call f [i, y0, h] e) [x0..x0 + w - 1]"
    if "vline self = Backend f"
      "\<not> (y0 < - h \<or> y0 > height self \<or> x0 < - w \<or> x0 > width self)" for f
    using that by (simp add: fill_rect_def vline_op_def concat_map_singleton)
  then show ?thesis
    by (auto simp add: concat_vspan_cells_distinct concat_vspan_cells_set
        concat_vspan_cells_length simp del: set_concat) (simp_all add: fill_rect_def)
qed


theorem fill_rect_columns_witness:
  "fill_rect spans 9 0 3 2 () = [] \<and>
   fill_rect spans 2 5 3 2 () =
     [Call Draw_vspan [2, 5, 2] (), Call Draw_vspan [3, 5, 2] (), Call Draw_vspan [4, 5, 2] ()] \<and>
   length (fill_rect spans 2 5 3 2 ()) = 3 \<and>
   distinct (concat (map (\<lambda>i. vspan_cells i 5 2) [2..4])) \<and>
   set (concat (map (\<lambda>i. vspan_cells i 5 2) [2..4])) = {2..4} \<times> {5..6} \<and>
   length (concat (map (\<lambda>i. vspan_cells i 5 2) [2..4])) = 6"
  using fill_rect_columns [where self = spans and ?x0.0 = 9 and ?y0.0 = 0 and w = 3 and h = 2
      and e = "()"]
    fill_rect_columns [where self = spans and ?x0.0 = 2 and ?y0.0 = 5 and w = 3 and h = 2
      and e = "()"]
  by (simp add: spans_def vline_op_def)

section \<open>Line: number of pixels, absence of gaps, direction of the call\<close>

lemma line_loop_length:
  "length (line_loop self steep x0 y0 x1 dx dy err ystep e) = nat (x1 + 1 - x0)"
proof (induction self steep x0 y0 x1 dx dy err ystep e rule: line_loop.induct)
  case (1 self steep x0 y0 x1 dx dy err ystep e)
  show ?case
  proof (cases "x0 \<le> x1")
    case True
    have step: "Suc (nat (x1 + 1 - (x0 + 1))) = nat (x1 + 1 - x0)"
      using True by simp
    show ?thesis
    proof (cases "err - dy < 0")
      case neg: True
      show ?thesis
        using True neg "1.IH"(1) step by (subst line_loop.simps) simp
    next
      case pos: False
      show ?thesis
        using True pos "1.IH"(2) step by (subst line_loop.simps) simp
    qed
  next
    case False
    then show ?thesis by (subst line_loop.simps) simp
  qed
qed

lemma line_loop_major:
  "map (\<lambda>c. coords c ! (if steep then 1 else 0)) (line_loop self steep x0 y0 x1 dx dy err ystep e)
     = [x0..x1]"
proof (induction self steep x0 y0 x1 dx dy err ystep e rule: line_loop.induct)
  case (1 self steep x0 y0 x1 dx dy err ystep e)
  show ?case
  proof (cases "x0 \<le> x1")
    case True
    show ?thesis
    proof (cases "err - dy < 0")
      case neg: True
      show ?thesis
        using True neg "1.IH"(1) by (subst line_loop.simps) (simp add: upto_rec1 [of x0 x1])
    next
      case pos: False
      show ?thesis
        using True pos "1.IH"(2) by (subst line_loop.simps) (simp add: upto_rec1 [of x0 x1])
    qed
  next
    case False
    then show ?thesis by (subst line_loop.simps) simp
  qed
qed


lemma line_loop_pixel:
  "c \<in> set (line_loop self steep x0 y0 x1 dx dy err ystep e) \<Longrightarrow>
     callee c = pixel self \<and> length (coords c) = 2 \<and> extra c = e"
proof (induction self steep x0 y0 x1 dx dy err ystep e rule: line_loop.induct)
  case (1 self steep x0 y0 x1 dx dy err ystep e)
  show ?case
  proof (cases "x0 \<le> x1")
    case True
    show ?thesis
    proof (cases "err - dy < 0")
      case neg: True
      from "1.prems" True neg
      have "c = (if steep then Call (pixel self) [y0, x0] e else Call (pixel self) [x0, y0] e)
          \<or> c \<in> set (line_loop self steep (x0 + 1) (y0 + ystep) x1 dx dy (err - dy + dx) ystep e)"
        by (subst (asm) line_loop.simps) simp
      then show ?thesis
        using "1.IH"(1) [OF True neg] by (cases steep) auto
    next
      case pos: False
      from "1.prems" True pos
      have "c = (if steep then Call (pixel self) [y0, x0] e else Call (pixel self) [x0, y0] e)
          \<or> c \<in> set (line_loop self steep (x0 + 1) y0 x1 dx dy (err - dy) ystep e)"
        by (subst (asm) line_loop.simps) simp
      then show ?thesis
        using "1.IH"(2) [OF True pos] by (cases steep) auto
    qed
  next
    case False
    with "1.prems" show ?thesis by (subst (asm) line_loop.simps) simp
  qed
qed

lemma line_ends_swap: "line_ends x1 y1 x0 y0 = line_ends x0 y0 x1 y1"
  by (simp add: line_ends_def Let_def abs_minus_commute) linarith?


lemma line_ends_cases:
  "line_ends x0 y0 x1 y1 =
     (if \<bar>y1 - y0\<bar> > \<bar>x1 - x0\<bar>
      then (if y0 > y1 then (True, y1, x1, y0, x0) else (True, y0, x0, y1, x1))
      else (if x0 > x1 then (False, x1, y1, x0, y0) else (False, x0, y0, x1, y1)))"
  by (simp add: line_ends_def Let_def)

lemma line_ends_ordered:
  assumes "line_ends x0 y0 x1 y1 = (steep, a0, b0, a1, b1)"
  shows "steep = (\<bar>y1 - y0\<bar> > \<bar>x1 - x0\<bar>)" and "a1 + 1 - a0 = max \<bar>x1 - x0\<bar> \<bar>y1 - y0\<bar> + 1"
  using assms by (auto simp add: line_ends_cases split: if_splits)

text \<open>
  Claim C4: for all integer endpoints, \<open>line\<close> makes exactly
  \<open>max(|x1 - x0|, |y1 - y0|) + 1\<close> pixel calls, and from each emitted pixel to the
  next the coordinate of the major axis (\<open>y\<close> when the line is steep, \<open>x\<close> otherwise)
  grows by exactly \<open>1\<close>.
\<close>

theorem line_pixel_count:
  "length (line self x0 y0 x1 y1 e) = nat (max \<bar>x1 - x0\<bar> \<bar>y1 - y0\<bar> + 1) \<and>
   (\<forall>c \<in> set (line self x0 y0 x1 y1 e). callee c = pixel self \<and> length (coords c) = 2) \<and>
   (\<forall>i. Suc i < length (line self x0 y0 x1 y1 e) \<longrightarrow>
      coords (line self x0 y0 x1 y1 e ! Suc i) ! (if \<bar>y1 - y0\<bar> > \<bar>x1 - x0\<bar> then 1 else 0)
        = coords (line self x0 y0 x1 y1 e ! i) ! (if \<bar>y1 - y0\<bar> > \<bar>x1 - x0\<bar> then 1 else 0) + 1)"
proof -
  obtain steep a0 b0 a1 b1 where ends: "line_ends x0 y0 x1 y1 = (steep, a0, b0, a1, b1)"
    by (cases "line_ends x0 y0 x1 y1") auto
  define ps where "ps = line_loop self steep a0 b0 a1 (a1 - a0) \<bar>b1 - b0\<bar> ((a1 - a0) div 2)
    (if b0 < b1 then 1 else - 1) e"
  have line: "line self x0 y0 x1 y1 e = ps"
    by (simp add: line_def ends ps_def Let_def)
  have steep: "steep = (\<bar>y1 - y0\<bar> > \<bar>x1 - x0\<bar>)"
    and span: "a1 + 1 - a0 = max \<bar>x1 - x0\<bar> \<bar>y1 - y0\<bar> + 1"
    using line_ends_ordered [OF ends] by simp_all
  have len: "length ps = nat (max \<bar>x1 - x0\<bar> \<bar>y1 - y0\<bar> + 1)"
    by (simp only: ps_def line_loop_length span)
  have pix: "callee c = pixel self \<and> length (coords c) = 2" if "c \<in> set ps" for c
    using that line_loop_pixel [of c self steep] by (simp add: ps_def)
  have major: "map (\<lambda>c. coords c ! (if steep then 1 else 0)) ps = [a0..a1]"
    by (simp only: ps_def line_loop_major)
  have step: "coords (ps ! Suc i) ! (if steep then 1 else 0)
      = coords (ps ! i) ! (if steep then 1 else 0) + 1" if "Suc i < length ps" for i
  proof -
    have l: "length ps = length [a0..a1]"
      using major by (metis length_map)
    have n: "coords (ps ! k) ! (if steep then 1 else 0) = [a0..a1] ! k" if "k < length ps" for k
      using that major by (metis nth_map)
    have "a0 + int (Suc i) \<le> a1" using that l by simp
    then have "[a0..a1] ! Suc i = a0 + int (Suc i)" "[a0..a1] ! i = a0 + int i"
      by simp_all
    then show ?thesis using n [of i] n [of "Suc i"] that by simp
  qed
  show ?thesis
    unfolding line using len pix step by (simp add: steep)
qed

theorem line_pixel_count_witness:
  "length (line pixels 0 0 3 7 ()) = 8 \<and>
   coords (line pixels 0 0 3 7 () ! 3) ! 1 = coords (line pixels 0 0 3 7 () ! 2) ! 1 + 1"
  using line_pixel_count [of pixels 0 0 3 7 "()", THEN conjunct1]
    line_pixel_count [of pixels 0 0 3 7 "()", THEN conjunct2, THEN conjunct2, THEN spec, of 2]
  by simp

text \<open>
  Claim C5: for all integer endpoints, \<open>line(x0, y0, x1, y1)\<close> and
  \<open>line(x1, y1, x0, y0)\<close> emit the same set of pixel coordinates. The two calls even
  make the same calls in the same order, the endpoints being put in one order before
  the loop.
\<close>

theorem line_endpoint_swap:
  "coords ` set (line self x0 y0 x1 y1 e) = coords ` set (line self x1 y1 x0 y0 e) \<and>
   line self x0 y0 x1 y1 e = line self x1 y1 x0 y0 e"
  by (simp add: line_def line_ends_swap [of x1 y1 x0 y0])


theorem line_endpoint_swap_witness:
  "line pixels 0 0 3 7 () = line pixels 3 7 0 0 ()"
  using line_endpoint_swap [of pixels 0 0 3 7 "()"] by simp

section \<open>Circle outline: symmetry\<close>

lemma points_append: "points (cs @ ds) = points cs \<union> points ds"
  by (simp add: points_def map_filter_def)

lemma points_octants:
  "points (octants self x0 y0 x y e) =
     {(x0 + x, y0 + y), (x0 - x, y0 + y), (x0 + x, y0 - y), (x0 - x, y0 - y),
      (x0 + y, y0 + x), (x0 - y, y0 + x), (x0 + y, y0 - x), (x0 - y, y0 - x)}"
  by (simp add: points_def map_filter_def octants_def point_of_def)

lemma stable_Un: "stable x0 y0 S \<Longrightarrow> stable x0 y0 T \<Longrightarrow> stable x0 y0 (S \<union> T)"
  by (auto simp add: stable_def)

lemma inj_reflections: "r \<in> set (reflections x0 y0) \<Longrightarrow> inj r"
  by (auto simp add: reflections_def inj_def)

lemma stable_octants: "stable x0 y0 (points (octants self x0 y0 x y e))"
  unfolding stable_def points_octants
  by (intro allI impI) (elim insertE emptyE; simp)

lemma stable_circle_loop:
  "stable x0 y0 (points (circle_loop self x0 y0 f ddF_x ddF_y x y e))"
proof (induction self x0 y0 f ddF_x ddF_y x y e rule: circle_loop.induct)
  case (1 self x0 y0 f ddF_x ddF_y x y e)
  show ?case
  proof (cases "x < y")
    case True
    show ?thesis
    proof (cases "f \<ge> 0")
      case nonneg: True
      have "stable x0 y0 (points (octants self x0 y0 (x + 1) (y - 1) e) \<union>
          points (circle_loop self x0 y0 (f + (ddF_y + 2) + (ddF_x + 2)) (ddF_x + 2)
            (ddF_y + 2) (x + 1) (y - 1) e))"
        using "1.IH"(1) [OF True nonneg] by (intro stable_Un stable_octants)
      then show ?thesis
        using True nonneg by (subst circle_loop.simps) (simp add: points_append)
    next
      case neg: False
      have "stable x0 y0 (points (octants self x0 y0 (x + 1) y e) \<union>
          points (circle_loop self x0 y0 (f + (ddF_x + 2)) (ddF_x + 2) ddF_y (x + 1) y e))"
        using "1.IH"(2) [OF True neg] by (intro stable_Un stable_octants)
      then show ?thesis
        using True neg by (subst circle_loop.simps) (simp add: points_append)
    qed
  next
    case False
    then show ?thesis
      by (subst circle_loop.simps) (simp add: points_def map_filter_def stable_def)
  qed
qed

lemma stable_axis_points:
  "stable x0 y0 (points
      [Call p [x0, y0 + radius] e, Call p [x0, y0 - radius] e,
       Call p [x0 + radius, y0] e, Call p [x0 - radius, y0] e])"
proof -
  have eq: "points [Call p [x0, y0 + radius] e, Call p [x0, y0 - radius] e,
       Call p [x0 + radius, y0] e, Call p [x0 - radius, y0] e]
     = {(x0, y0 + radius), (x0, y0 - radius), (x0 + radius, y0), (x0 - radius, y0)}"
    by (simp add: points_def map_filter_def point_of_def)
  show ?thesis
    unfolding eq stable_def by (intro allI impI) (elim insertE emptyE; simp)
qed

lemma stable_circle: "stable x0 y0 (points (circle self x0 y0 radius e))"
  unfolding circle_def points_append by (intro stable_Un stable_circle_loop stable_axis_points)

lemma stable_reflections:
  assumes "stable x0 y0 S" and "r \<in> set (reflections x0 y0)" and "p \<in> S"
  shows "r p \<in> S"
proof -
  obtain x y where p: "p = (x, y)" by (cases p)
  have h: "(2 * x0 - u, v) \<in> S" and v: "(u, 2 * y0 - v) \<in> S"
    and d: "(x0 + (v - y0), y0 + (u - x0)) \<in> S" if "(u, v) \<in> S" for u v
    using assms(1) that by (simp_all add: stable_def)
  have 1: "(x, y) \<in> S" using assms(3) p by simp
  have 2: "(2 * x0 - x, y) \<in> S" by (rule h [OF 1])
  have 3: "(x, 2 * y0 - y) \<in> S" by (rule v [OF 1])
  have 4: "(2 * x0 - x, 2 * y0 - y) \<in> S" by (rule v [OF 2])
  have 5: "(x0 + (y - y0), y0 + (x - x0)) \<in> S" by (rule d [OF 1])
  have 6: "(x0 - (y - y0), y0 - (x - x0)) \<in> S" using d [OF 4] by (simp add: algebra_simps)
  have 7: "(x0 - (y - y0), y0 + (x - x0)) \<in> S" using d [OF 3] by (simp add: algebra_simps)
  have 8: "(x0 + (y - y0), y0 - (x - x0)) \<in> S" using d [OF 2] by (simp add: algebra_simps)
  from assms(2) have "r p \<in> {(x, y), (2 * x0 - x, y), (x, 2 * y0 - y), (2 * x0 - x, 2 * y0 - y),
      (x0 + (y - y0), y0 + (x - x0)), (x0 - (y - y0), y0 - (x - x0)),
      (x0 - (y - y0), y0 + (x - x0)), (x0 + (y - y0), y0 - (x - x0))}"
    unfolding reflections_def p by (elim set_ConsD [THEN disjE]) simp_all
  then show ?thesis
    using 1 2 3 4 5 6 7 8 by (elim insertE emptyE) (simp_all only:)
qed

text \<open>
  Claim C7: for every centre and every radius \<open>r \<ge> 1\<close>, the set of pixel coordinates
  emitted by \<open>circle\<close> is mapped onto itself by each of the eight reflections about the
  centre.
\<close>

theorem circle_eightfold:
  "1 \<le> radius \<Longrightarrow>
     \<forall>r \<in> set (reflections x0 y0).
       r ` points (circle self x0 y0 radius e) = points (circle self x0 y0 radius e)"
proof
  fix r assume r: "r \<in> set (reflections x0 y0)"
  let ?S = "points (circle self x0 y0 radius e)"
  have fin: "finite ?S" unfolding points_def by (rule finite_set)
  have "r p \<in> ?S" if "p \<in> ?S" for p
    using stable_circle r that by (rule stable_reflections)
  then have sub: "r ` ?S \<subseteq> ?S" by (rule image_subsetI)
  have "inj r" using r by (rule inj_reflections)
  then have "inj_on r ?S" by (rule inj_on_subset) (rule subset_UNIV)
  then have "card (r ` ?S) = card ?S" by (rule card_image)
  with fin sub show "r ` ?S = ?S" by (rule card_subset_eq)
qed

theorem circle_eightfold_witness:
  "(1::int) \<le> 2 \<and>
   (\<lambda>(x, y). (2 * 5 - x, y)) \<in> set (reflections 5 5) \<and>
   (\<lambda>(x, y). (2 * 5 - x, y)) ` points (circle pixels 5 5 2 ()) = points (circle pixels 5 5 2 ())"
proof -
  have h: "(1::int) \<le> 2" by simp
  have m: "(\<lambda>(x, y). (2 * 5 - x, y)) \<in> set (reflections 5 5)"
    unfolding reflections_def by (rule list.set_intros(2)) (rule list.set_intros(1))
  from circle_eightfold [OF h, of 5 5 pixels "()"] m
  have "(\<lambda>(x, y). (2 * 5 - x, y)) ` points (circle pixels 5 5 2 ())
      = points (circle pixels 5 5 2 ())"
    by (rule bspec)
  with h m show ?thesis by (intro conjI)
qed

section \<open>The drawing methods return\<close>

text \<open>
  Every loop of the class is a function whose termination is proved above by a measure
  (\<open>x1 + 1 - x0\<close> for \<open>line\<close>, \<open>y - x\<close> for the circles, \<open>last + 1 - i\<close> and
  \<open>y2 + 1 - y\<close> for \<open>fill_triangle\<close>); the \<open>for\<close> loops over \<open>range\<close> are finite lists.
  The only operation of the class that can raise on integers is the division in
  \<open>fill_triangle\<close>, and its divisors are the three \<open>dy\<close> after the replacement of \<open>0\<close> by
  \<open>1\<close>.
\<close>

lemma floordiv_Inr: "b \<noteq> 0 \<Longrightarrow> floordiv a b = Inr (a div b)"
  by (simp add: floordiv_def)

lemma tri_upper_returns:
  "dy01 \<noteq> 0 \<Longrightarrow> dy02 \<noteq> 0 \<Longrightarrow>
     \<exists>y' cs. tri_upper self x0 dx01 dy01 dx02 dy02 sa sb i last' y e = Inr (y', cs)"
proof (induction self x0 dx01 dy01 dx02 dy02 sa sb i last' y e rule: tri_upper.induct)
  case (1 self x0 dx01 dy01 dx02 dy02 sa sb i last' y e)
  show ?case
  proof (cases "i \<le> last'")
    case True
    have a: "floordiv sa dy01 = Inr (sa div dy01)" and b: "floordiv sb dy02 = Inr (sb div dy02)"
      using "1.prems" by (simp_all add: floordiv_Inr)
    obtain y' cs where
      "tri_upper self x0 dx01 dy01 dx02 dy02 (sa + dx01) (sb + dx02) (i + 1) last' i e
         = Inr (y', cs)"
      using "1.IH" [OF True a b "1.prems"] by blast
    then show ?thesis
      using True a b by (subst tri_upper.simps) simp
  next
    case False
    then show ?thesis by (subst tri_upper.simps) simp
  qed
qed

lemma tri_lower_returns:
  "dy12 \<noteq> 0 \<Longrightarrow> dy02 \<noteq> 0 \<Longrightarrow>
     \<exists>cs. tri_lower self x0 x1 dx12 dy12 dx02 dy02 sa sb y y2 e = Inr cs"
proof (induction self x0 x1 dx12 dy12 dx02 dy02 sa sb y y2 e rule: tri_lower.induct)
  case (1 self x0 x1 dx12 dy12 dx02 dy02 sa sb y y2 e)
  show ?case
  proof (cases "y \<le> y2")
    case True
    have a: "floordiv sa dy12 = Inr (sa div dy12)" and b: "floordiv sb dy02 = Inr (sb div dy02)"
      using "1.prems" by (simp_all add: floordiv_Inr)
    obtain cs where
      "tri_lower self x0 x1 dx12 dy12 dx02 dy02 (sa + dx12) (sb + dx02) (y + 1) y2 e = Inr cs"
      using "1.IH" [OF True a b "1.prems"] by blast
    then show ?thesis
      using True a b by (subst tri_lower.simps) simp
  next
    case False
    then show ?thesis by (subst tri_lower.simps) simp
  qed
qed

lemma scan_triangle_returns: "\<exists>cs. scan_triangle self x0 y0 x1 y1 x2 y2 e = Inr cs"
proof -
  define dy01 where "dy01 = (if y1 - y0 = 0 then 1 else y1 - y0)"
  define dy02 where "dy02 = (if y2 - y0 = 0 then 1 else y2 - y0)"
  define dy12 where "dy12 = (if y2 - y1 = 0 then 1 else y2 - y1)"
  have nz: "dy01 \<noteq> 0" "dy02 \<noteq> 0" "dy12 \<noteq> 0"
    by (simp_all add: dy01_def dy02_def dy12_def)
  obtain y cs where up: "tri_upper self x0 (x1 - x0) dy01 (x2 - x0) dy02 0 0 y0
      (if y1 = y2 then y1 else y1 - 1) 0 e = Inr (y, cs)"
    using tri_upper_returns [OF nz(1) nz(2), of self x0 "x1 - x0" "x2 - x0" 0 0 y0
        "if y1 = y2 then y1 else y1 - 1" 0 e]
    by blast
  obtain cs' where lo: "tri_lower self x0 x1 (x2 - x1) dy12 (x2 - x0) dy02
      ((x2 - x1) * (y - y1)) ((x2 - x0) * (y - y0)) y y2 e = Inr cs'"
    using tri_lower_returns [OF nz(3) nz(2), of self x0 x1 "x2 - x1" "x2 - x0"
        "(x2 - x1) * (y - y1)" "(x2 - x0) * (y - y0)" y y2 e]
    by blast
  have "scan_triangle self x0 y0 x1 y1 x2 y2 e = Inr (cs @ cs')"
    unfolding scan_triangle_def Let_def
    using up lo by (simp only: dy01_def dy02_def dy12_def sum.case prod.case)
  then show ?thesis by blast
qed


text \<open>
  Claim C8: every drawing method (the fallback spans, \<open>rect\<close>, \<open>_fill_rect\<close>, \<open>line\<close>,
  \<open>circle\<close>, \<open>fill_circle\<close>, \<open>triangle\<close>, \<open>fill_triangle\<close>) terminates and raises no
  exception for every integer input, negative sizes, zero radius and degenerate triangles
  included: it returns a list of backend calls, possibly empty.
\<close>

theorem invoke_returns: "\<exists>cs. invoke self p e = Inr cs"
proof (cases p)
  case (Fill_triangle x0 y0 x1 y1 x2 y2)
  obtain a0 b0 a1 b1 a2 b2 where s: "sort_vertices x0 y0 x1 y1 x2 y2 = (a0, b0, a1, b1, a2, b2)"
    by (cases "sort_vertices x0 y0 x1 y1 x2 y2") auto
  show ?thesis
    using scan_triangle_returns [of self a0 b0 a1 b1 a2 b2 e]
    by (auto simp add: Fill_triangle fill_triangle_def s)
qed simp_all

theorem invoke_returns_witness:
  "\<exists>cs. invoke pixels (Fill_triangle 0 0 0 0 0 0) () = Inr cs"
  using invoke_returns [of pixels "Fill_triangle 0 0 0 0 0 0" "()"] .

section \<open>The extra arguments reach every backend call\<close>

lemma slow_hline_extra: "c \<in> set (slow_hline self x y n e) \<Longrightarrow> extra c = e"
  by (auto simp add: slow_hline_def split: if_splits)

lemma slow_vline_extra: "c \<in> set (slow_vline self x y n e) \<Longrightarrow> extra c = e"
  by (auto simp add: slow_vline_def split: if_splits)

lemma hline_op_extra: "c \<in> set (hline_op self x y n e) \<Longrightarrow> extra c = e"
  by (cases "hline self") (auto simp add: hline_op_def dest: slow_hline_extra)

lemma vline_op_extra: "c \<in> set (vline_op self x y n e) \<Longrightarrow> extra c = e"
  by (cases "vline self") (auto simp add: vline_op_def dest: slow_vline_extra)

lemma rect_extra: "c \<in> set (rect self x y w h e) \<Longrightarrow> extra c = e"
  by (auto simp add: rect_def split: if_splits dest: hline_op_extra vline_op_extra)

lemma fill_rect_extra: "c \<in> set (fill_rect self x y w h e) \<Longrightarrow> extra c = e"
  by (auto simp add: fill_rect_def split: if_splits dest: vline_op_extra)

lemma octants_extra: "c \<in> set (octants self x0 y0 x y e) \<Longrightarrow> extra c = e"
  by (auto simp add: octants_def)

lemma quadrants_extra: "c \<in> set (quadrants self x0 y0 x y e) \<Longrightarrow> extra c = e"
  by (auto simp add: quadrants_def dest: vline_op_extra)

lemma circle_loop_extra:
  "c \<in> set (circle_loop self x0 y0 f ddF_x ddF_y x y e) \<Longrightarrow> extra c = e"
proof (induction self x0 y0 f ddF_x ddF_y x y e rule: circle_loop.induct)
  case (1 self x0 y0 f ddF_x ddF_y x y e)
  show ?case
  proof (cases "x < y")
    case True
    show ?thesis
    proof (cases "f \<ge> 0")
      case nonneg: True
      from "1.prems" True nonneg
      have "c \<in> set (octants self x0 y0 (x + 1) (y - 1) e) \<or>
          c \<in> set (circle_loop self x0 y0 (f + (ddF_y + 2) + (ddF_x + 2)) (ddF_x + 2)
            (ddF_y + 2) (x + 1) (y - 1) e)"
        by (subst (asm) circle_loop.simps) simp
      then show ?thesis
        by (elim disjE) (erule octants_extra, erule "1.IH"(1) [OF True nonneg])
    next
      case neg: False
      from "1.prems" True neg
      have "c \<in> set (octants self x0 y0 (x + 1) y e) \<or>
          c \<in> set (circle_loop self x0 y0 (f + (ddF_x + 2)) (ddF_x + 2) ddF_y (x + 1) y e)"
        by (subst (asm) circle_loop.simps) simp
      then show ?thesis
        by (elim disjE) (erule octants_extra, erule "1.IH"(2) [OF True neg])
    qed
  next
    case False
    with "1.prems" show ?thesis by (subst (asm) circle_loop.simps) simp
  qed
qed

lemma fill_circle_loop_extra:
  "c \<in> set (fill_circle_loop self x0 y0 f ddF_x ddF_y x y e) \<Longrightarrow> extra c = e"
proof (induction self x0 y0 f ddF_x ddF_y x y e rule: fill_circle_loop.induct)
  case (1 self x0 y0 f ddF_x ddF_y x y e)
  show ?case
  proof (cases "x < y")
    case True
    show ?thesis
    proof (cases "f \<ge> 0")
      case nonneg: True
      from "1.prems" True nonneg
      have "c \<in> set (quadrants self x0 y0 (x + 1) (y - 1) e) \<or>
          c \<in> set (fill_circle_loop self x0 y0 (f + (ddF_y + 2) + (ddF_x + 2)) (ddF_x + 2)
            (ddF_y + 2) (x + 1) (y - 1) e)"
        by (subst (asm) fill_circle_loop.simps) simp
      then show ?thesis
        by (elim disjE) (erule quadrants_extra, erule "1.IH"(1) [OF True nonneg])
    next
      case neg: False
      from "1.prems" True neg
      have "c \<in> set (quadrants self x0 y0 (x + 1) y e) \<or>
          c \<in> set (fill_circle_loop self x0 y0 (f + (ddF_x + 2)) (ddF_x + 2) ddF_y (x + 1) y e)"
        by (subst (asm) fill_circle_loop.simps) simp
      then show ?thesis
        by (elim disjE) (erule quadrants_extra, erule "1.IH"(2) [OF True neg])
    qed
  next
    case False
    with "1.prems" show ?thesis by (subst (asm) fill_circle_loop.simps) simp
  qed
qed

lemma circle_extra: "c \<in> set (circle self x0 y0 r e) \<Longrightarrow> extra c = e"
  by (auto simp add: circle_def dest: circle_loop_extra)

lemma fill_circle_extra: "c \<in> set (fill_circle self x0 y0 r e) \<Longrightarrow> extra c = e"
  by (auto simp add: fill_circle_def dest: fill_circle_loop_extra vline_op_extra)

lemma span_row_extra: "c \<in> set (span_row self a b y e) \<Longrightarrow> extra c = e"
  by (auto simp add: span_row_def split: if_splits dest: hline_op_extra)

lemma flat_span_extra: "c \<in> set (flat_span self x0 y0 x1 x2 e) \<Longrightarrow> extra c = e"
  by (auto simp add: flat_span_def Let_def split: if_splits dest: hline_op_extra)

lemma tri_upper_extra:
  "tri_upper self x0 dx01 dy01 dx02 dy02 sa sb i last' y e = Inr (y', cs) \<Longrightarrow>
     c \<in> set cs \<Longrightarrow> extra c = e"
proof (induction self x0 dx01 dy01 dx02 dy02 sa sb i last' y e arbitrary: y' cs
    rule: tri_upper.induct)
  case (1 self x0 dx01 dy01 dx02 dy02 sa sb i last' y e)
  show ?case
  proof (cases "i \<le> last'")
    case True
    from "1.prems"(1) True obtain qa qb z ds where
      a: "floordiv sa dy01 = Inr qa" and b: "floordiv sb dy02 = Inr qb" and
      rest: "tri_upper self x0 dx01 dy01 dx02 dy02 (sa + dx01) (sb + dx02) (i + 1) last' i e
        = Inr (z, ds)" and
      cs: "cs = span_row self (x0 + qa) (x0 + qb) i e @ ds"
      by (subst (asm) tri_upper.simps) (auto split: sum.splits)
    from "1.prems"(2) cs have "c \<in> set (span_row self (x0 + qa) (x0 + qb) i e) \<or> c \<in> set ds"
      by simp
    then show ?thesis
      by (elim disjE) (erule span_row_extra, erule "1.IH" [OF True a b rest])
  next
    case False
    with "1.prems" show ?thesis by (subst (asm) tri_upper.simps) simp
  qed
qed

lemma tri_lower_extra:
  "tri_lower self x0 x1 dx12 dy12 dx02 dy02 sa sb y y2 e = Inr cs \<Longrightarrow>
     c \<in> set cs \<Longrightarrow> extra c = e"
proof (induction self x0 x1 dx12 dy12 dx02 dy02 sa sb y y2 e arbitrary: cs
    rule: tri_lower.induct)
  case (1 self x0 x1 dx12 dy12 dx02 dy02 sa sb y y2 e)
  show ?case
  proof (cases "y \<le> y2")
    case True
    from "1.prems"(1) True obtain qa qb ds where
      a: "floordiv sa dy12 = Inr qa" and b: "floordiv sb dy02 = Inr qb" and
      rest: "tri_lower self x0 x1 dx12 dy12 dx02 dy02 (sa + dx12) (sb + dx02) (y + 1) y2 e
        = Inr ds" and
      cs: "cs = span_row self (x1 + qa) (x0 + qb) y e @ ds"
      by (subst (asm) tri_lower.simps) (auto split: sum.splits)
    from "1.prems"(2) cs have "c \<in> set (span_row self (x1 + qa) (x0 + qb) y e) \<or> c \<in> set ds"
      by simp
    then show ?thesis
      by (elim disjE) (erule span_row_extra, erule "1.IH" [OF True a b rest])
  next
    case False
    with "1.prems" show ?thesis by (subst (asm) tri_lower.simps) simp
  qed
qed

lemma scan_triangle_extra:
  assumes "scan_triangle self x0 y0 x1 y1 x2 y2 e = Inr cs" and "c \<in> set cs"
  shows "extra c = e"
proof -
  from assms(1) obtain dy01 dy02 dy12 l y ds ds' where
    up: "tri_upper self x0 (x1 - x0) dy01 (x2 - x0) dy02 0 0 y0 l 0 e = Inr (y, ds)" and
    lo: "tri_lower self x0 x1 (x2 - x1) dy12 (x2 - x0) dy02
      ((x2 - x1) * (y - y1)) ((x2 - x0) * (y - y0)) y y2 e = Inr ds'" and
    cs: "cs = ds @ ds'"
    unfolding scan_triangle_def Let_def by (auto split: sum.splits)
  from assms(2) cs have "c \<in> set ds \<or> c \<in> set ds'" by simp
  then show ?thesis
    by (elim disjE) (erule tri_upper_extra [OF up], erule tri_lower_extra [OF lo])
qed

lemma fill_triangle_extra:
  assumes "fill_triangle self x0 y0 x1 y1 x2 y2 e = Inr cs" and "c \<in> set cs"
  shows "extra c = e"
proof -
  obtain a0 b0 a1 b1 a2 b2 where s: "sort_vertices x0 y0 x1 y1 x2 y2 = (a0, b0, a1, b1, a2, b2)"
    by (cases "sort_vertices x0 y0 x1 y1 x2 y2") auto
  show ?thesis
  proof (cases "b0 = b2")
    case True
    with assms s have "c \<in> set (flat_span self a0 b0 a1 a2 e)"
      by (auto simp add: fill_triangle_def)
    then show ?thesis by (rule flat_span_extra)
  next
    case False
    with assms(1) s have "scan_triangle self a0 b0 a1 b1 a2 b2 e = Inr cs"
      by (simp add: fill_triangle_def)
    then show ?thesis using assms(2) by (rule scan_triangle_extra)
  qed
qed

lemma line_extra: "c \<in> set (line self x0 y0 x1 y1 e) \<Longrightarrow> extra c = e"
  by (auto simp add: line_def Let_def split: prod.splits dest: line_loop_pixel)

lemma triangle_extra: "c \<in> set (triangle self x0 y0 x1 y1 x2 y2 e) \<Longrightarrow> extra c = e"
  by (auto simp add: triangle_def dest: line_extra)


text \<open>
  Claim C9: the extra arguments of a call of a drawing method are forwarded unchanged to
  every backend call made while servicing it: each pixel and span call carries the
  \<open>*args, **kwargs\<close> of the top-level call. The methods are polymorphic in the type of
  the extra arguments, so they cannot examine them.
\<close>

theorem extra_forwarded:
  "invoke self p e = Inr cs \<Longrightarrow> \<forall>c \<in> set cs. extra c = e"
proof (cases p)
  case (Slow_hline x y n)
  assume "invoke self p e = Inr cs"
  then show ?thesis using Slow_hline by (auto dest: slow_hline_extra)
next
  case (Slow_vline x y n)
  assume "invoke self p e = Inr cs"
  then show ?thesis using Slow_vline by (auto dest: slow_vline_extra)
next
  case (Rect x y w h)
  assume "invoke self p e = Inr cs"
  then show ?thesis using Rect by (auto dest: rect_extra)
next
  case (Fill_rect x y w h)
  assume "invoke self p e = Inr cs"
  then show ?thesis using Fill_rect by (auto dest: fill_rect_extra)
next
  case (Line x0 y0 x1 y1)
  assume "invoke self p e = Inr cs"
  then show ?thesis using Line by (auto dest: line_extra)
next
  case (Circle x y r)
  assume "invoke self p e = Inr cs"
  then show ?thesis using Circle by (auto dest: circle_extra)
next
  case (Fill_circle x y r)
  assume "invoke self p e = Inr cs"
  then show ?thesis using Fill_circle by (auto dest: fill_circle_extra)
next
  case (Triangle x0 y0 x1 y1 x2 y2)
  assume "invoke self p e = Inr cs"
  then show ?thesis using Triangle by (auto dest: triangle_extra)
next
  case (Fill_triangle x0 y0 x1 y1 x2 y2)
  assume "invoke self p e = Inr cs"
  then show ?thesis using Fill_triangle by (auto dest: fill_triangle_extra)
qed

theorem extra_forwarded_witness:
  "invoke spans (Fill_circle 4 4 1) ''red'' =
     Inr [Call Draw_vspan [4, 3, 3] ''red'', Call Draw_vspan [5, 4, 1] ''red'',
          Call Draw_vspan [4, 3, 3] ''red'', Call Draw_vspan [3, 4, 1] ''red'',
          Call Draw_vspan [4, 3, 3] ''red''] \<and>
   map extra [Call Draw_vspan [4, 3, 3] ''red'', Call Draw_vspan [5, 4, 1] ''red'',
          Call Draw_vspan [4, 3, 3] ''red'', Call Draw_vspan [3, 4, 1] ''red'',
          Call Draw_vspan [4, 3, 3] ''red''] = [''red'', ''red'', ''red'', ''red'', ''red'']"
proof -
  have run: "invoke spans (Fill_circle 4 4 1) ''red'' =
     Inr [Call Draw_vspan [4, 3, 3] ''red'', Call Draw_vspan [5, 4, 1] ''red'',
          Call Draw_vspan [4, 3, 3] ''red'', Call Draw_vspan [3, 4, 1] ''red'',
          Call Draw_vspan [4, 3, 3] ''red'']"
    by (simp add: fill_circle_def fill_circle_loop.simps quadrants_def vline_op_def spans_def)
  from extra_forwarded [OF run] run show ?thesis by simp
qed

end
